theory Spec2Isabelle
  imports Main
begin

section \<open>The cast graph of build.ts\<close>

text \<open>
  The program reads a list of series, each with the cast scraped from its page, keeps
  the cast members that occur in at least two series, and emits the nodes and edges of a
  graph. The class \<open>Graph\<close> holds two JavaScript \<open>Map\<close>s and two arrays; its
  methods mutate them. Here the object is a record that each method takes and returns.
\<close>

subsection \<open>Data\<close>

text \<open>\<^verbatim>\<open>type Cast = { id: string, name: string, url: string }\<close>\<close>

record Cast =
  c_id :: string
  c_name :: string
  c_url :: string

text \<open>\<^verbatim>\<open>type Serie = { id: string, name: string, cast: string[] }\<close>\<close>

record Serie =
  s_id :: string
  s_name :: string
  s_cast :: "string list"

text \<open>
  A JavaScript \<open>Map\<close> iterates in insertion order and holds each key once, so it is
  an association list: \<open>set\<close> on a key already present replaces the value where it
  stands, \<open>set\<close> on a new key appends, \<open>delete\<close> removes the entry.
\<close>

type_synonym Casts = "(string \<times> Cast) list"
type_synonym Series = "(string \<times> Serie) list"

fun map_set :: "'k \<Rightarrow> 'v \<Rightarrow> ('k \<times> 'v) list \<Rightarrow> ('k \<times> 'v) list" where
  "map_set k v [] = [(k, v)]"
| "map_set k v ((k', v') # m) = (if k' = k then (k, v) # m else (k', v') # map_set k v m)"

fun map_get :: "('k \<times> 'v) list \<Rightarrow> 'k \<Rightarrow> 'v option" where
  "map_get [] k = None"
| "map_get ((k', v') # m) k = (if k' = k then Some v' else map_get m k)"

definition map_has :: "('k \<times> 'v) list \<Rightarrow> 'k \<Rightarrow> bool" where
  "map_has m k = (map_get m k \<noteq> None)"

definition map_delete :: "'k \<Rightarrow> ('k \<times> 'v) list \<Rightarrow> ('k \<times> 'v) list" where
  "map_delete k m = filter (\<lambda>kv. fst kv \<noteq> k) m"

definition map_values :: "('k \<times> 'v) list \<Rightarrow> 'v list" where
  "map_values m = map snd m"

definition map_keys :: "('k \<times> 'v) list \<Rightarrow> 'k list" where
  "map_keys m = map fst m"

text \<open>
  The elements of the arrays \<open>edges\<close> and \<open>nodes\<close>. An optional field that an
  object literal leaves out is \<open>None\<close>.
\<close>

record Edge =
  e_from :: string
  e_to :: string
  e_label :: "string option"
  e_length :: "nat option"

record Node =
  n_id :: string
  n_label :: string
  n_shape :: string
  n_image :: "string option"

record Graph =
  cast :: Casts
  series :: Series
  edges :: "Edge list"
  nodes :: "Node list"
  list_id :: string

text \<open>The constructor: both maps and both arrays start empty.\<close>

definition new_Graph :: "string \<Rightarrow> Graph" where
  "new_Graph i = \<lparr>cast = [], series = [], edges = [], nodes = [], list_id = i\<rparr>"

text \<open>
  A dereference of \<open>undefined\<close> throws a \<open>TypeError\<close>; nothing in the class
  catches it.
\<close>

datatype error = TypeError

subsection \<open>fetch\<close>

text \<open>
  What \<open>getList\<close> and \<open>getCast\<close> deliver for one element of the list: the id of
  the series, its English title and the cast of its page. The network is outside the
  model; \<open>fetch\<close> takes these items in the order in which their requests complete,
  since the part of each callback after its \<open>await\<close> runs without interruption.
\<close>

record Item =
  l_id :: string
  l_name :: string
  l_cast :: "Cast list"

text \<open>\<^verbatim>\<open>c.forEach(v => this.cast.set(v.id, v))\<close>\<close>

fun set_all :: "Casts \<Rightarrow> Cast list \<Rightarrow> Casts" where
  "set_all m [] = m"
| "set_all m (v # vs) = set_all (map_set (c_id v) v m) vs"

text \<open>The body of the callback of \<open>list.map\<close>, after the cast has arrived.\<close>

definition fetch_item :: "Graph \<Rightarrow> Item \<Rightarrow> Graph" where
  "fetch_item g l =
     g\<lparr>cast := set_all (cast g) (l_cast l),
       series := map_set (l_id l)
                   \<lparr>s_id = l_id l, s_name = l_name l, s_cast = map c_id (l_cast l)\<rparr>
                   (series g)\<rparr>"

fun fetch_items :: "Graph \<Rightarrow> Item list \<Rightarrow> Graph" where
  "fetch_items g [] = g"
| "fetch_items g (l # ls) = fetch_items (fetch_item g l) ls"

text \<open>
  \<^verbatim>\<open>[...this.series.values()].filter(s => s.cast.includes(c.id)).length\<close>:
  the number of series whose cast holds the id.
\<close>

definition occurrences :: "Series \<Rightarrow> string \<Rightarrow> nat" where
  "occurrences ss i = length (filter (\<lambda>s. i \<in> set (s_cast s)) (map_values ss))"

text \<open>
  The first \<open>forEach\<close> of \<open>fetch\<close> deletes from the map it iterates over.
  \<open>Map.prototype.forEach\<close> visits the entries in insertion order and does not visit
  an entry deleted before its turn. The loop state is the entries already visited and
  still present, and the entries still to visit; the map is the two together. The
  callback deletes the key \<open>c.id\<close>, read from the value it is given.
\<close>

function cast_forEach :: "Series \<Rightarrow> Casts \<Rightarrow> Casts \<Rightarrow> Casts" where
  "cast_forEach ss visited [] = visited"
| "cast_forEach ss visited ((k, c) # rest) =
     (if occurrences ss (c_id c) \<le> 1
      then cast_forEach ss (map_delete (c_id c) (visited @ [(k, c)])) (map_delete (c_id c) rest)
      else cast_forEach ss (visited @ [(k, c)]) rest)"
  by pat_completeness auto
termination
  by (relation "measure (\<lambda>(ss, visited, rest). length rest)")
     (auto simp: map_delete_def less_Suc_eq_le)

text \<open>\<^verbatim>\<open>s.cast = s.cast.filter(c => this.cast.has(c))\<close>, for every series.\<close>

definition filter_rosters :: "Casts \<Rightarrow> Series \<Rightarrow> Series" where
  "filter_rosters cm ss =
     map (\<lambda>(k, s). (k, s\<lparr>s_cast := filter (map_has cm) (s_cast s)\<rparr>)) ss"

definition fetch :: "Graph \<Rightarrow> Item list \<Rightarrow> Graph" where
  "fetch g items =
     (let g1 = fetch_items g items;
          g2 = g1\<lparr>cast := cast_forEach (series g1) [] (cast g1)\<rparr>
      in g2\<lparr>series := filter_rosters (cast g2) (series g2)\<rparr>)"

subsection \<open>processCast and processSeries\<close>

definition cast_node :: "Cast \<Rightarrow> Node" where
  "cast_node c =
     \<lparr>n_id = c_id c, n_label = c_name c, n_shape = ''circularImage'', n_image = Some (c_url c)\<rparr>"

fun push_cast_nodes :: "Graph \<Rightarrow> Cast list \<Rightarrow> Graph" where
  "push_cast_nodes g [] = g"
| "push_cast_nodes g (c # cs) = push_cast_nodes (g\<lparr>nodes := nodes g @ [cast_node c]\<rparr>) cs"

definition processCast :: "Graph \<Rightarrow> Graph" where
  "processCast g = push_cast_nodes g (map_values (cast g))"

definition hub_node :: "Serie \<Rightarrow> Node" where
  "hub_node serie =
     \<lparr>n_id = s_id serie, n_label = s_name serie, n_shape = ''text'', n_image = None\<rparr>"

definition hub_edge :: "Serie \<Rightarrow> string \<Rightarrow> Edge" where
  "hub_edge serie i = \<lparr>e_from = s_id serie, e_to = i, e_label = None, e_length = None\<rparr>"

fun push_hub_edges :: "Graph \<Rightarrow> Serie \<Rightarrow> string list \<Rightarrow> Graph" where
  "push_hub_edges g serie [] = g"
| "push_hub_edges g serie (i # is) =
     push_hub_edges (g\<lparr>edges := edges g @ [hub_edge serie i]\<rparr>) serie is"

definition processSeriesMutipleEdges :: "Graph \<Rightarrow> Serie \<Rightarrow> Graph" where
  "processSeriesMutipleEdges g serie =
     push_hub_edges (g\<lparr>nodes := nodes g @ [hub_node serie]\<rparr>) serie (s_cast serie)"

text \<open>
  \<^verbatim>\<open>(this.cast.get(serie.cast[0]) as Cast).id\<close>: an index past the end of the array
  is \<open>undefined\<close>, \<open>get\<close> of a key that is absent is \<open>undefined\<close>, and reading
  \<open>.id\<close> of \<open>undefined\<close> throws. The cast is erased at run time and checks nothing.
\<close>

definition array_at :: "'a list \<Rightarrow> nat \<Rightarrow> 'a option" where
  "array_at xs n = (if n < length xs then Some (xs ! n) else None)"

definition get_id :: "Casts \<Rightarrow> string option \<Rightarrow> error + string" where
  "get_id cm k =
     (case k of
        None \<Rightarrow> Inl TypeError
      | Some i \<Rightarrow> (case map_get cm i of None \<Rightarrow> Inl TypeError | Some c \<Rightarrow> Inr (c_id c)))"

definition processSeriesSingleEdge :: "Graph \<Rightarrow> Serie \<Rightarrow> error + Graph" where
  "processSeriesSingleEdge g serie =
     (case get_id (cast g) (array_at (s_cast serie) 0) of
        Inl e \<Rightarrow> Inl e
      | Inr f \<Rightarrow>
          (case get_id (cast g) (array_at (s_cast serie) 1) of
             Inl e \<Rightarrow> Inl e
           | Inr t \<Rightarrow>
               Inr (g\<lparr>edges := edges g @
                      [\<lparr>e_from = f, e_to = t, e_label = Some (s_name serie), e_length = None\<rparr>]\<rparr>)))"

text \<open>The callback of the \<open>forEach\<close> of \<open>processSeries\<close>.\<close>

definition processSeries_callback :: "Graph \<Rightarrow> Serie \<Rightarrow> error + Graph" where
  "processSeries_callback g serie =
     (if length (s_cast serie) = 2 then processSeriesSingleEdge g serie
      else if length (s_cast serie) \<noteq> 0 then Inr (processSeriesMutipleEdges g serie)
      else Inr g)"

text \<open>An exception thrown by the callback ends the loop and leaves the method.\<close>

fun series_forEach :: "Graph \<Rightarrow> Serie list \<Rightarrow> error + Graph" where
  "series_forEach g [] = Inr g"
| "series_forEach g (serie # rest) =
     (case processSeries_callback g serie of
        Inl e \<Rightarrow> Inl e
      | Inr g' \<Rightarrow> series_forEach g' rest)"

definition processSeries :: "Graph \<Rightarrow> error + Graph" where
  "processSeries g = series_forEach g (map_values (series g))"

text \<open>
  The top level of the module: \<^verbatim>\<open>new Graph(args.list)\<close>, \<open>fetch\<close>, and then
  the two calls \<^verbatim>\<open>graph.processCast(); graph.processSeries();\<close> that turn the
  maps into nodes and edges.
\<close>

definition classify :: "Graph \<Rightarrow> error + Graph" where
  "classify g = processSeries (processCast g)"

definition build :: "string \<Rightarrow> Item list \<Rightarrow> error + Graph" where
  "build i items = classify (fetch (new_Graph i) items)"

subsection \<open>Predicates and inputs used in the statements\<close>

text \<open>
  Every entry of the cast map is stored under the id of its value, and no key occurs
  twice: what \<open>this.cast.set(v.id, v)\<close> establishes.
\<close>

definition keyed_by_id :: "Casts \<Rightarrow> bool" where
  "keyed_by_id m = (distinct (map fst m) \<and> (\<forall>kv \<in> set m. fst kv = c_id (snd kv)))"

text \<open>An item of the list references a cast member when its cast holds the id.\<close>

definition references :: "string \<Rightarrow> Item \<Rightarrow> bool" where
  "references i l = (i \<in> set (map c_id (l_cast l)))"

text \<open>
  Scenario A: X plays in the series 1 and 2, Y in the series 1 only.
\<close>

definition scenario_A :: "Item list" where
  "scenario_A =
     [\<lparr>l_id = ''1'', l_name = ''Show1'',
        l_cast = [\<lparr>c_id = ''X'', c_name = ''Xi'', c_url = ''x.png''\<rparr>,
                  \<lparr>c_id = ''Y'', c_name = ''Yu'', c_url = ''y.png''\<rparr>]\<rparr>,
      \<lparr>l_id = ''2'', l_name = ''Show2'',
        l_cast = [\<lparr>c_id = ''X'', c_name = ''Xi'', c_url = ''x.png''\<rparr>]\<rparr>]"

text \<open>The graph that the program builds in Scenario A.\<close>

definition scenario_A_graph :: Graph where
  "scenario_A_graph =
     \<lparr>cast = [(''X'', \<lparr>c_id = ''X'', c_name = ''Xi'', c_url = ''x.png''\<rparr>)],
      series = [(''1'', \<lparr>s_id = ''1'', s_name = ''Show1'', s_cast = [''X'']\<rparr>),
                (''2'', \<lparr>s_id = ''2'', s_name = ''Show2'', s_cast = [''X'']\<rparr>)],
      edges = [\<lparr>e_from = ''1'', e_to = ''X'', e_label = None, e_length = None\<rparr>,
               \<lparr>e_from = ''2'', e_to = ''X'', e_label = None, e_length = None\<rparr>],
      nodes = [\<lparr>n_id = ''X'', n_label = ''Xi'', n_shape = ''circularImage'', n_image = Some ''x.png''\<rparr>,
               \<lparr>n_id = ''1'', n_label = ''Show1'', n_shape = ''text'', n_image = None\<rparr>,
               \<lparr>n_id = ''2'', n_label = ''Show2'', n_shape = ''text'', n_image = None\<rparr>],
      list_id = ''L''\<rparr>"

text \<open>
  Scenarios B and C: A and B play in the series 1 and 2, C in the series 2 and 3.
\<close>

definition scenario_BC :: "Item list" where
  "scenario_BC =
     [\<lparr>l_id = ''1'', l_name = ''Show1'',
        l_cast = [\<lparr>c_id = ''A'', c_name = ''Ann'', c_url = ''a.png''\<rparr>,
                  \<lparr>c_id = ''B'', c_name = ''Bob'', c_url = ''b.png''\<rparr>]\<rparr>,
      \<lparr>l_id = ''2'', l_name = ''Show2'',
        l_cast = [\<lparr>c_id = ''A'', c_name = ''Ann'', c_url = ''a.png''\<rparr>,
                  \<lparr>c_id = ''B'', c_name = ''Bob'', c_url = ''b.png''\<rparr>,
                  \<lparr>c_id = ''C'', c_name = ''Cy'', c_url = ''c.png''\<rparr>]\<rparr>,
      \<lparr>l_id = ''3'', l_name = ''Show3'',
        l_cast = [\<lparr>c_id = ''C'', c_name = ''Cy'', c_url = ''c.png''\<rparr>]\<rparr>]"

text \<open>Scenario D: the only cast member of the only series is pruned.\<close>

definition scenario_D :: "Item list" where
  "scenario_D =
     [\<lparr>l_id = ''1'', l_name = ''Show1'',
        l_cast = [\<lparr>c_id = ''Y'', c_name = ''Yu'', c_url = ''y.png''\<rparr>]\<rparr>]"

section \<open>Properties\<close>

subsection \<open>The maps\<close>

lemma map_get_map_of: "map_get m k = map_of m k"
  by (induction m) auto

lemma map_get_SomeD: "map_get m k = Some v \<Longrightarrow> (k, v) \<in> set m"
  by (simp add: map_get_map_of map_of_SomeD)

lemma map_has_iff: "map_has m k \<longleftrightarrow> k \<in> set (map fst m)"
  by (simp add: map_has_def map_get_map_of map_of_eq_None_iff)

lemma map_set_keys:
  "map fst (map_set k v m) = (if k \<in> set (map fst m) then map fst m else map fst m @ [k])"
  by (induction m) force+

lemma map_set_subset: "x \<in> set (map_set k v m) \<Longrightarrow> x = (k, v) \<or> x \<in> set m"
  by (induction m) (auto split: if_splits)

lemma map_set_distinct: "distinct (map fst m) \<Longrightarrow> distinct (map fst (map_set k v m))"
  by (simp add: map_set_keys)

lemma keyed_by_id_map_set: "keyed_by_id m \<Longrightarrow> keyed_by_id (map_set (c_id v) v m)"
  unfolding keyed_by_id_def
  by (auto simp: map_set_distinct dest!: map_set_subset)

lemma keyed_by_id_set_all: "keyed_by_id m \<Longrightarrow> keyed_by_id (set_all m vs)"
  by (induction vs arbitrary: m) (auto simp: keyed_by_id_map_set)

lemma keyed_by_id_fetch_items: "keyed_by_id (cast g) \<Longrightarrow> keyed_by_id (cast (fetch_items g ls))"
  by (induction ls arbitrary: g) (auto simp: fetch_item_def keyed_by_id_set_all)

lemma map_delete_absent: "k \<notin> set (map fst m) \<Longrightarrow> map_delete k m = m"
  by (induction m) (auto simp: map_delete_def)

lemma cast_forEach_filter:
  "keyed_by_id (visited @ rest) \<Longrightarrow>
   cast_forEach ss visited rest = visited @ filter (\<lambda>kv. 2 \<le> occurrences ss (fst kv)) rest"
proof (induction ss visited rest rule: cast_forEach.induct)
  case (1 ss visited)
  then show ?case by simp
next
  case (2 ss visited k c rest)
  from "2.prems" have dist: "distinct (map fst (visited @ (k, c) # rest))"
    and ids: "\<forall>kv \<in> set (visited @ (k, c) # rest). fst kv = c_id (snd kv)"
    unfolding keyed_by_id_def by blast+
  from ids have kc: "k = c_id c"
    by simp
  from dist have nv: "k \<notin> set (map fst visited)" and nr: "k \<notin> set (map fst rest)"
    by auto
  from "2.prems" have kv: "keyed_by_id ((visited @ [(k, c)]) @ rest)"
    by simp
  from dist have "distinct (map fst (visited @ rest))"
    by auto
  moreover from ids have "\<forall>kv \<in> set (visited @ rest). fst kv = c_id (snd kv)"
    by simp
  ultimately have kd: "keyed_by_id (visited @ rest)"
    unfolding keyed_by_id_def by blast
  show ?case
  proof (cases "occurrences ss (c_id c) \<le> 1")
    case True
    have "map_delete (c_id c) (visited @ [(k, c)]) = map_delete k visited"
      using kc by (simp add: map_delete_def)
    then have d1: "map_delete (c_id c) (visited @ [(k, c)]) = visited"
      using nv by (simp add: map_delete_absent)
    have d2: "map_delete (c_id c) rest = rest"
      using nr kc by (simp add: map_delete_absent)
    have ih: "cast_forEach ss visited rest =
        visited @ filter (\<lambda>kv. 2 \<le> occurrences ss (fst kv)) rest"
      using "2.IH"(1) [OF True] kd by (simp only: d1 d2)
    have "\<not> 2 \<le> occurrences ss k"
      using True kc by simp
    then show ?thesis
      using True by (simp add: d1 d2 ih)
  next
    case False
    have ih: "cast_forEach ss (visited @ [(k, c)]) rest =
        (visited @ [(k, c)]) @ filter (\<lambda>kv. 2 \<le> occurrences ss (fst kv)) rest"
      using "2.IH"(2) [OF False kv] .
    have "2 \<le> occurrences ss k"
      using False kc by simp
    then show ?thesis
      using False by (simp add: ih)
  qed
qed

subsection \<open>fetch\<close>

lemma keyed_by_id_new: "keyed_by_id (cast (new_Graph i))"
  by (simp add: keyed_by_id_def new_Graph_def)

lemma keyed_by_id_filter: "keyed_by_id m \<Longrightarrow> keyed_by_id (filter P m)"
  by (simp add: keyed_by_id_def distinct_map_filter)

lemma fetch_cast:
  "keyed_by_id (cast g) \<Longrightarrow>
   cast (fetch g items) =
     filter (\<lambda>kv. 2 \<le> occurrences (series (fetch_items g items)) (fst kv))
       (cast (fetch_items g items))"
  using cast_forEach_filter [of "[]" "cast (fetch_items g items)" "series (fetch_items g items)"]
  by (simp add: fetch_def Let_def keyed_by_id_fetch_items)

lemma fetch_series:
  "series (fetch g items) = filter_rosters (cast (fetch g items)) (series (fetch_items g items))"
  by (simp add: fetch_def Let_def)

lemma keyed_by_id_fetch: "keyed_by_id (cast g) \<Longrightarrow> keyed_by_id (cast (fetch g items))"
  by (simp add: fetch_cast keyed_by_id_filter keyed_by_id_fetch_items)

lemma fetch_edges_nodes: "edges (fetch g items) = edges g \<and> nodes (fetch g items) = nodes g"
proof -
  have "edges (fetch_items g items) = edges g \<and> nodes (fetch_items g items) = nodes g"
    by (induction items arbitrary: g) (simp_all add: fetch_item_def)
  then show ?thesis
    by (simp add: fetch_def Let_def)
qed

lemma count_map_set:
  "length (filter P (map snd (map_set k v m))) \<le> length (filter P (map snd m)) + (if P v then 1 else 0)"
  by (induction m) auto

lemma occurrences_fetch_item:
  "occurrences (series (fetch_item g l)) i \<le> occurrences (series g) i + (if references i l then 1 else 0)"
  using count_map_set [of "\<lambda>s. i \<in> set (s_cast s)"
      "l_id l" "\<lparr>s_id = l_id l, s_name = l_name l, s_cast = map c_id (l_cast l)\<rparr>" "series g"]
  by (simp add: occurrences_def map_values_def fetch_item_def references_def)

lemma occurrences_fetch_items:
  "occurrences (series (fetch_items g ls)) i \<le> occurrences (series g) i + length (filter (references i) ls)"
proof (induction ls arbitrary: g)
  case Nil
  then show ?case by simp
next
  case (Cons l ls)
  have "occurrences (series (fetch_items (fetch_item g l) ls)) i
      \<le> occurrences (series (fetch_item g l)) i + length (filter (references i) ls)"
    by (rule Cons.IH)
  also have "\<dots> \<le> (occurrences (series g) i + (if references i l then 1 else 0))
      + length (filter (references i) ls)"
    using occurrences_fetch_item [of g l i] by simp
  finally show ?case by (simp split: if_splits)
qed

text \<open>
  C2. A cast member that is still in the map when \<open>fetch\<close> returns is stored under its
  own id and occurs in the cast of at least two series of the map as it stood before any
  roster was filtered, hence in the cast of at least two items of the list.
\<close>

theorem prune_keeps_recurring:
  "kv \<in> set (cast (fetch (new_Graph i) items)) \<Longrightarrow>
   fst kv = c_id (snd kv) \<and>
   2 \<le> occurrences (series (fetch_items (new_Graph i) items)) (c_id (snd kv)) \<and>
   2 \<le> length (filter (references (c_id (snd kv))) items)"
proof -
  assume mem: "kv \<in> set (cast (fetch (new_Graph i) items))"
  have "keyed_by_id (cast (fetch (new_Graph i) items))"
    by (simp add: keyed_by_id_fetch keyed_by_id_new)
  with mem have k: "fst kv = c_id (snd kv)"
    unfolding keyed_by_id_def by blast
  from mem have "2 \<le> occurrences (series (fetch_items (new_Graph i) items)) (fst kv)"
    by (simp add: fetch_cast keyed_by_id_new)
  with k have o: "2 \<le> occurrences (series (fetch_items (new_Graph i) items)) (c_id (snd kv))"
    by simp
  have "occurrences (series (new_Graph i)) (c_id (snd kv)) = 0"
    by (simp add: occurrences_def new_Graph_def map_values_def)
  with o occurrences_fetch_items [of "new_Graph i" items "c_id (snd kv)"]
  have "2 \<le> length (filter (references (c_id (snd kv))) items)"
    by simp
  with k o show ?thesis by simp
qed

lemma fetch_scenario_A:
  "fetch (new_Graph ''L'') scenario_A =
     \<lparr>cast = [(''X'', \<lparr>c_id = ''X'', c_name = ''Xi'', c_url = ''x.png''\<rparr>)],
      series = [(''1'', \<lparr>s_id = ''1'', s_name = ''Show1'', s_cast = [''X'']\<rparr>),
                (''2'', \<lparr>s_id = ''2'', s_name = ''Show2'', s_cast = [''X'']\<rparr>)],
      edges = [], nodes = [], list_id = ''L''\<rparr>"
  by (simp add: fetch_def scenario_A_def new_Graph_def fetch_item_def Let_def occurrences_def
      map_values_def map_delete_def filter_rosters_def map_has_def)

theorem prune_keeps_recurring_witness:
  "(''X'', \<lparr>c_id = ''X'', c_name = ''Xi'', c_url = ''x.png''\<rparr>)
     \<in> set (cast (fetch (new_Graph ''L'') scenario_A)) \<and>
   2 \<le> occurrences (series (fetch_items (new_Graph ''L'') scenario_A)) ''X'' \<and>
   2 \<le> length (filter (references ''X'') scenario_A)"
proof -
  have mem: "(''X'', \<lparr>c_id = ''X'', c_name = ''Xi'', c_url = ''x.png''\<rparr>)
     \<in> set (cast (fetch (new_Graph ''L'') scenario_A))"
    by (simp add: fetch_scenario_A)
  from prune_keeps_recurring [OF mem] mem show ?thesis
    by simp
qed

text \<open>
  C6. When \<open>fetch\<close> returns, every id in the roster of every series is a key of the
  cast map.
\<close>

theorem rosters_within_cast:
  "kv \<in> set (series (fetch g items)) \<Longrightarrow> p \<in> set (s_cast (snd kv)) \<Longrightarrow>
   map_has (cast (fetch g items)) p \<and> p \<in> set (map_keys (cast (fetch g items)))"
  by (auto simp: fetch_series filter_rosters_def map_has_iff map_keys_def)

theorem rosters_within_cast_witness:
  "(''1'', \<lparr>s_id = ''1'', s_name = ''Show1'', s_cast = [''X'']\<rparr>)
     \<in> set (series (fetch (new_Graph ''L'') scenario_A)) \<and>
   ''X'' \<in> set (s_cast (snd (''1'', \<lparr>s_id = ''1'', s_name = ''Show1'', s_cast = [''X'']\<rparr>))) \<and>
   map_has (cast (fetch (new_Graph ''L'') scenario_A)) ''X'' \<and>
   ''X'' \<in> set (map_keys (cast (fetch (new_Graph ''L'') scenario_A)))"
proof -
  have mem: "(''1'', \<lparr>s_id = ''1'', s_name = ''Show1'', s_cast = [''X'']\<rparr>)
     \<in> set (series (fetch (new_Graph ''L'') scenario_A))"
    by (simp add: fetch_scenario_A)
  have ros: "''X'' \<in> set (s_cast (snd (''1'', \<lparr>s_id = ''1'', s_name = ''Show1'', s_cast = [''X'']\<rparr>)))"
    by simp
  from rosters_within_cast [OF mem ros] mem ros show ?thesis
    by blast
qed

subsection \<open>The scenarios, evaluated\<close>

lemma fetch_scenario_BC:
  "fetch (new_Graph ''L'') scenario_BC =
     \<lparr>cast = [(''A'', \<lparr>c_id = ''A'', c_name = ''Ann'', c_url = ''a.png''\<rparr>),
              (''B'', \<lparr>c_id = ''B'', c_name = ''Bob'', c_url = ''b.png''\<rparr>),
              (''C'', \<lparr>c_id = ''C'', c_name = ''Cy'', c_url = ''c.png''\<rparr>)],
      series = [(''1'', \<lparr>s_id = ''1'', s_name = ''Show1'', s_cast = [''A'', ''B'']\<rparr>),
                (''2'', \<lparr>s_id = ''2'', s_name = ''Show2'', s_cast = [''A'', ''B'', ''C'']\<rparr>),
                (''3'', \<lparr>s_id = ''3'', s_name = ''Show3'', s_cast = [''C'']\<rparr>)],
      edges = [], nodes = [], list_id = ''L''\<rparr>"
  by (simp add: fetch_def scenario_BC_def new_Graph_def fetch_item_def Let_def occurrences_def
      map_values_def map_delete_def filter_rosters_def map_has_def)

lemma fetch_scenario_D:
  "fetch (new_Graph ''L'') scenario_D =
     \<lparr>cast = [],
      series = [(''1'', \<lparr>s_id = ''1'', s_name = ''Show1'', s_cast = []\<rparr>)],
      edges = [], nodes = [], list_id = ''L''\<rparr>"
  by (simp add: fetch_def scenario_D_def new_Graph_def fetch_item_def Let_def occurrences_def
      map_values_def map_delete_def filter_rosters_def map_has_def)

subsection \<open>processCast and the callback of processSeries\<close>

lemma push_cast_nodes_eq: "push_cast_nodes g cs = g\<lparr>nodes := nodes g @ map cast_node cs\<rparr>"
  by (induction cs arbitrary: g) simp_all

lemma processCast_eq:
  "processCast g = g\<lparr>nodes := nodes g @ map cast_node (map_values (cast g))\<rparr>"
  by (simp add: processCast_def push_cast_nodes_eq)

lemma push_hub_edges_eq:
  "push_hub_edges g serie is = g\<lparr>edges := edges g @ map (hub_edge serie) is\<rparr>"
  by (induction "is" arbitrary: g) simp_all

lemma processSeriesMutipleEdges_eq:
  "processSeriesMutipleEdges g serie =
     g\<lparr>nodes := nodes g @ [hub_node serie],
       edges := edges g @ map (hub_edge serie) (s_cast serie)\<rparr>"
  by (simp add: processSeriesMutipleEdges_def push_hub_edges_eq)

lemma keyed_by_id_get: "keyed_by_id m \<Longrightarrow> map_get m k = Some c \<Longrightarrow> c_id c = k"
  unfolding keyed_by_id_def by (fastforce dest: map_get_SomeD)

lemma get_id_present:
  "map_has m k \<Longrightarrow> \<exists>c. map_get m k = Some c \<and> get_id m (Some k) = Inr (c_id c)"
  by (auto simp: map_has_def get_id_def)

lemma get_id_keyed: "keyed_by_id m \<Longrightarrow> map_has m k \<Longrightarrow> get_id m (Some k) = Inr k"
  using get_id_present [of m k] keyed_by_id_get [of m k] by auto

lemma length_two: "length xs = 2 \<Longrightarrow> \<exists>a b. xs = [a, b]"
  by (cases xs; cases "tl xs") auto

lemma fetch_rosters:
  "\<forall>serie \<in> set (map_values (series (fetch g items))).
     \<forall>p \<in> set (s_cast serie). map_has (cast (fetch g items)) p"
  by (auto simp: fetch_series filter_rosters_def map_values_def)

lemma build_scenario_A: "build ''L'' scenario_A = Inr scenario_A_graph"
  by (simp add: build_def classify_def fetch_scenario_A processCast_def processSeries_def
      map_values_def processSeries_callback_def processSeriesMutipleEdges_def
      cast_node_def hub_node_def hub_edge_def scenario_A_graph_def)

lemma build_scenario_BC:
  "build ''L'' scenario_BC =
     Inr \<lparr>cast = [(''A'', \<lparr>c_id = ''A'', c_name = ''Ann'', c_url = ''a.png''\<rparr>),
              (''B'', \<lparr>c_id = ''B'', c_name = ''Bob'', c_url = ''b.png''\<rparr>),
              (''C'', \<lparr>c_id = ''C'', c_name = ''Cy'', c_url = ''c.png''\<rparr>)],
      series = [(''1'', \<lparr>s_id = ''1'', s_name = ''Show1'', s_cast = [''A'', ''B'']\<rparr>),
                (''2'', \<lparr>s_id = ''2'', s_name = ''Show2'', s_cast = [''A'', ''B'', ''C'']\<rparr>),
                (''3'', \<lparr>s_id = ''3'', s_name = ''Show3'', s_cast = [''C'']\<rparr>)],
      edges = [\<lparr>e_from = ''A'', e_to = ''B'', e_label = Some ''Show1'', e_length = None\<rparr>,
               \<lparr>e_from = ''2'', e_to = ''A'', e_label = None, e_length = None\<rparr>,
               \<lparr>e_from = ''2'', e_to = ''B'', e_label = None, e_length = None\<rparr>,
               \<lparr>e_from = ''2'', e_to = ''C'', e_label = None, e_length = None\<rparr>,
               \<lparr>e_from = ''3'', e_to = ''C'', e_label = None, e_length = None\<rparr>],
      nodes = [\<lparr>n_id = ''A'', n_label = ''Ann'', n_shape = ''circularImage'', n_image = Some ''a.png''\<rparr>,
               \<lparr>n_id = ''B'', n_label = ''Bob'', n_shape = ''circularImage'', n_image = Some ''b.png''\<rparr>,
               \<lparr>n_id = ''C'', n_label = ''Cy'', n_shape = ''circularImage'', n_image = Some ''c.png''\<rparr>,
               \<lparr>n_id = ''2'', n_label = ''Show2'', n_shape = ''text'', n_image = None\<rparr>,
               \<lparr>n_id = ''3'', n_label = ''Show3'', n_shape = ''text'', n_image = None\<rparr>],
      list_id = ''L''\<rparr>"
  by (simp add: build_def classify_def fetch_scenario_BC processCast_def processSeries_def
      map_values_def processSeries_callback_def processSeriesMutipleEdges_def
      processSeriesSingleEdge_def array_at_def get_id_def
      cast_node_def hub_node_def hub_edge_def)

lemma build_scenario_D:
  "build ''L'' scenario_D =
     Inr \<lparr>cast = [],
      series = [(''1'', \<lparr>s_id = ''1'', s_name = ''Show1'', s_cast = []\<rparr>)],
      edges = [], nodes = [], list_id = ''L''\<rparr>"
  by (simp add: build_def classify_def fetch_scenario_D processCast_def processSeries_def
      map_values_def processSeries_callback_def)

lemma callback_three_or_more:
  assumes "3 \<le> length (s_cast serie)"
  shows "\<exists>hub spokes.
     processSeries_callback g serie = Inr (g\<lparr>nodes := nodes g @ [hub], edges := edges g @ spokes\<rparr>) \<and>
     hub = \<lparr>n_id = s_id serie, n_label = s_name serie, n_shape = ''text'', n_image = None\<rparr> \<and>
     spokes = map (\<lambda>p. \<lparr>e_from = n_id hub, e_to = p, e_label = None, e_length = None\<rparr>) (s_cast serie) \<and>
     length spokes = length (s_cast serie) \<and>
     (distinct (s_cast serie) \<longrightarrow>
        (\<forall>p \<in> set (s_cast serie). length (filter (\<lambda>e. e_to e = p) spokes) = 1))"
proof -
  let ?hub = "\<lparr>n_id = s_id serie, n_label = s_name serie, n_shape = ''text'', n_image = None\<rparr>"
  let ?spokes = "map (\<lambda>p. \<lparr>e_from = n_id ?hub, e_to = p, e_label = None, e_length = None\<rparr>)
                  (s_cast serie)"
  have one: "distinct xs \<Longrightarrow> p \<in> set xs \<Longrightarrow>
      length (filter (\<lambda>e. e_to e = p)
        (map (\<lambda>p. \<lparr>e_from = n_id ?hub, e_to = p, e_label = None, e_length = None\<rparr>) xs)) = 1"
    for xs p
    by (induction xs) (auto simp: filter_map comp_def filter_empty_conv)
  from assms have "length (s_cast serie) \<noteq> 2" "length (s_cast serie) \<noteq> 0"
    by auto
  then have "processSeries_callback g serie = Inr (processSeriesMutipleEdges g serie)"
    by (simp add: processSeries_callback_def)
  then have cb: "processSeries_callback g serie =
      Inr (g\<lparr>nodes := nodes g @ [?hub], edges := edges g @ ?spokes\<rparr>)"
    by (simp add: processSeriesMutipleEdges_eq hub_node_def hub_edge_def)
  have len: "length ?spokes = length (s_cast serie)"
    by simp
  have uniq: "distinct (s_cast serie) \<longrightarrow>
      (\<forall>p \<in> set (s_cast serie). length (filter (\<lambda>e. e_to e = p) ?spokes) = 1)"
    using one by blast
  from cb len uniq show ?thesis
    by blast
qed

text \<open>
  The lookups of \<open>processSeriesSingleEdge\<close> do throw when an id is not in the map.
\<close>

lemma single_edge_absent:
  "s_cast serie = [a, b] \<Longrightarrow> map_get (cast g) a = None \<or> map_get (cast g) b = None \<Longrightarrow>
   processSeriesSingleEdge g serie = Inl TypeError"
  by (auto simp: processSeriesSingleEdge_def get_id_def array_at_def split: option.splits sum.splits)

text \<open>
  C10. When every id of the roster is a key of the cast map, as it is after
  \<open>fetch\<close>, and the roster has two elements, as it has where
  \<open>processSeriesSingleEdge\<close> is called, both lookups find a cast member and the
  method returns without throwing.
\<close>

theorem single_edge_lookups_defined:
  assumes "length (s_cast serie) = 2"
    and "\<forall>p \<in> set (s_cast serie). map_has (cast g) p"
  shows "\<exists>ca cb.
     map_get (cast g) (s_cast serie ! 0) = Some ca \<and>
     map_get (cast g) (s_cast serie ! 1) = Some cb \<and>
     processSeriesSingleEdge g serie =
       Inr (g\<lparr>edges := edges g @
              [\<lparr>e_from = c_id ca, e_to = c_id cb, e_label = Some (s_name serie), e_length = None\<rparr>]\<rparr>)"
proof -
  from assms(1) obtain a b where ab: "s_cast serie = [a, b]"
    using length_two by blast
  with assms(2) have "map_has (cast g) a" "map_has (cast g) b"
    by simp_all
  then obtain ca cb where "map_get (cast g) a = Some ca" "map_get (cast g) b = Some cb"
    by (auto simp: map_has_def)
  then show ?thesis
    by (simp add: processSeriesSingleEdge_def get_id_def array_at_def ab)
qed

theorem single_edge_lookups_defined_witness:
  "length (s_cast \<lparr>s_id = ''1'', s_name = ''Show1'', s_cast = [''A'', ''B'']\<rparr>) = 2 \<and>
   map_has (cast (fetch (new_Graph ''L'') scenario_BC)) ''A'' \<and>
   map_has (cast (fetch (new_Graph ''L'') scenario_BC)) ''B'' \<and>
   (\<exists>ca cb.
     map_get (cast (fetch (new_Graph ''L'') scenario_BC)) ''A'' = Some ca \<and>
     map_get (cast (fetch (new_Graph ''L'') scenario_BC)) ''B'' = Some cb \<and>
     processSeriesSingleEdge (fetch (new_Graph ''L'') scenario_BC)
         \<lparr>s_id = ''1'', s_name = ''Show1'', s_cast = [''A'', ''B'']\<rparr> =
       Inr ((fetch (new_Graph ''L'') scenario_BC)
              \<lparr>edges := [\<lparr>e_from = c_id ca, e_to = c_id cb, e_label = Some ''Show1'',
                          e_length = None\<rparr>]\<rparr>))"
proof -
  let ?s = "\<lparr>s_id = ''1'', s_name = ''Show1'', s_cast = [''A'', ''B'']\<rparr>"
  let ?g = "fetch (new_Graph ''L'') scenario_BC"
  have len: "length (s_cast ?s) = 2"
    by simp
  have has: "map_has (cast ?g) ''A''" "map_has (cast ?g) ''B''"
    by (simp_all add: fetch_scenario_BC map_has_def)
  then have all: "\<forall>p \<in> set (s_cast ?s). map_has (cast ?g) p"
    by simp
  have e: "edges ?g = []"
    by (simp add: fetch_scenario_BC)
  from single_edge_lookups_defined [OF len all] len has e show ?thesis
    by simp
qed

subsection \<open>The loop of processSeries\<close>

lemma callback_emits:
  assumes "\<forall>p \<in> set (s_cast serie). map_has (cast g) p"
  shows "\<exists>ns es.
     processSeries_callback g serie = Inr (g\<lparr>nodes := nodes g @ ns, edges := edges g @ es\<rparr>) \<and>
     (\<forall>n \<in> set ns. n_shape n = ''text'') \<and>
     (s_cast serie = [] \<longrightarrow> ns = [] \<and> es = []) \<and>
     (keyed_by_id (cast g) \<longrightarrow>
        (\<forall>e \<in> set es. e_from e \<in> set (map n_id ns) \<union> set (map fst (cast g)) \<and>
                        e_to e \<in> set (map fst (cast g))))"
proof (cases "length (s_cast serie) = 2")
  case True
  then obtain a b where ab: "s_cast serie = [a, b]"
    using length_two by blast
  with assms have has: "map_has (cast g) a" "map_has (cast g) b"
    by simp_all
  from get_id_present [OF has(1)] obtain ca :: Cast where ca: "get_id (cast g) (Some a) = Inr (c_id ca)"
    by blast
  from get_id_present [OF has(2)] obtain cb :: Cast where cb: "get_id (cast g) (Some b) = Inr (c_id cb)"
    by blast
  let ?e = "\<lparr>e_from = c_id ca, e_to = c_id cb, e_label = Some (s_name serie), e_length = None\<rparr>"
  have run: "processSeries_callback g serie = Inr (g\<lparr>nodes := nodes g @ [], edges := edges g @ [?e]\<rparr>)"
    by (simp add: processSeries_callback_def processSeriesSingleEdge_def ab array_at_def ca cb)
  have "keyed_by_id (cast g) \<Longrightarrow> c_id ca = a \<and> c_id cb = b"
    using get_id_keyed [of "cast g"] has ca cb by simp
  moreover have "a \<in> set (map fst (cast g))" "b \<in> set (map fst (cast g))"
    using has by (simp_all add: map_has_iff)
  ultimately have "keyed_by_id (cast g) \<longrightarrow>
      (\<forall>e \<in> set [?e]. e_from e \<in> set (map n_id []) \<union> set (map fst (cast g)) \<and>
                       e_to e \<in> set (map fst (cast g)))"
    by simp
  with run ab show ?thesis
    by (intro exI [of _ "[]"] exI [of _ "[?e]"]) simp
next
  case False
  show ?thesis
  proof (cases "s_cast serie = []")
    case True
    then have "processSeries_callback g serie = Inr (g\<lparr>nodes := nodes g @ [], edges := edges g @ []\<rparr>)"
      by (simp add: processSeries_callback_def)
    with True show ?thesis
      by (intro exI [of _ "[]"]) simp
  next
    case ne: False
    let ?ns = "[hub_node serie]"
    let ?es = "map (hub_edge serie) (s_cast serie)"
    from False ne have run: "processSeries_callback g serie =
        Inr (g\<lparr>nodes := nodes g @ ?ns, edges := edges g @ ?es\<rparr>)"
      by (simp add: processSeries_callback_def processSeriesMutipleEdges_eq)
    have "\<forall>e \<in> set ?es. e_from e \<in> set (map n_id ?ns) \<union> set (map fst (cast g)) \<and>
                       e_to e \<in> set (map fst (cast g))"
      using assms by (auto simp: hub_edge_def hub_node_def map_has_iff)
    moreover have "\<forall>n \<in> set ?ns. n_shape n = ''text''"
      by (simp add: hub_node_def)
    ultimately show ?thesis
      using run ne by (intro exI [of _ ?ns] exI [of _ ?es]) blast
  qed
qed

lemma series_forEach_emits:
  assumes "\<forall>serie \<in> set ss. \<forall>p \<in> set (s_cast serie). map_has (cast g) p"
  shows "\<exists>ns es.
     series_forEach g ss = Inr (g\<lparr>nodes := nodes g @ ns, edges := edges g @ es\<rparr>) \<and>
     (\<forall>n \<in> set ns. n_shape n = ''text'') \<and>
     ((\<forall>serie \<in> set ss. s_cast serie = []) \<longrightarrow> ns = [] \<and> es = []) \<and>
     (keyed_by_id (cast g) \<longrightarrow>
        (\<forall>e \<in> set es. e_from e \<in> set (map n_id ns) \<union> set (map fst (cast g)) \<and>
                        e_to e \<in> set (map fst (cast g))))"
  using assms
proof (induction ss arbitrary: g)
  case Nil
  have "series_forEach g [] = Inr (g\<lparr>nodes := nodes g @ [], edges := edges g @ []\<rparr>)"
    by simp
  then show ?case
    by (intro exI [of _ "[]"]) simp
next
  case (Cons serie ss)
  from Cons.prems have "\<forall>p \<in> set (s_cast serie). map_has (cast g) p"
    by simp
  from callback_emits [OF this] obtain ns1 es1 where
    r1: "processSeries_callback g serie = Inr (g\<lparr>nodes := nodes g @ ns1, edges := edges g @ es1\<rparr>)"
    and t1: "\<forall>n \<in> set ns1. n_shape n = ''text''"
    and z1: "s_cast serie = [] \<longrightarrow> ns1 = [] \<and> es1 = []"
    and c1: "keyed_by_id (cast g) \<longrightarrow>
        (\<forall>e \<in> set es1. e_from e \<in> set (map n_id ns1) \<union> set (map fst (cast g)) \<and>
                         e_to e \<in> set (map fst (cast g)))"
    by blast
  let ?g1 = "g\<lparr>nodes := nodes g @ ns1, edges := edges g @ es1\<rparr>"
  from Cons.prems have "\<forall>serie \<in> set ss. \<forall>p \<in> set (s_cast serie). map_has (cast ?g1) p"
    by simp
  from Cons.IH [OF this] obtain ns2 es2 where
    r2: "series_forEach ?g1 ss = Inr (?g1\<lparr>nodes := nodes ?g1 @ ns2, edges := edges ?g1 @ es2\<rparr>)"
    and t2: "\<forall>n \<in> set ns2. n_shape n = ''text''"
    and z2: "(\<forall>serie \<in> set ss. s_cast serie = []) \<longrightarrow> ns2 = [] \<and> es2 = []"
    and c2: "keyed_by_id (cast ?g1) \<longrightarrow>
        (\<forall>e \<in> set es2. e_from e \<in> set (map n_id ns2) \<union> set (map fst (cast ?g1)) \<and>
                         e_to e \<in> set (map fst (cast ?g1)))"
    by blast
  have run: "series_forEach g (serie # ss) =
      Inr (g\<lparr>nodes := nodes g @ (ns1 @ ns2), edges := edges g @ (es1 @ es2)\<rparr>)"
    by (simp add: r1 r2)
  have t: "\<forall>n \<in> set (ns1 @ ns2). n_shape n = ''text''"
    using t1 t2 by auto
  have z: "(\<forall>s \<in> set (serie # ss). s_cast s = []) \<longrightarrow> ns1 @ ns2 = [] \<and> es1 @ es2 = []"
    using z1 z2 by simp
  have c: "keyed_by_id (cast g) \<longrightarrow>
      (\<forall>e \<in> set (es1 @ es2). e_from e \<in> set (map n_id (ns1 @ ns2)) \<union> set (map fst (cast g)) \<and>
                               e_to e \<in> set (map fst (cast g)))"
    using c1 c2 by auto
  from run t z c show ?case
    by blast
qed

lemma keyed_node_ids:
  "keyed_by_id m \<Longrightarrow> map n_id (map cast_node (map_values m)) = map fst m"
  by (simp add: keyed_by_id_def map_values_def cast_node_def)

lemma filter_distinct_key:
  "distinct (map f xs) \<Longrightarrow> x \<in> set xs \<Longrightarrow> filter (\<lambda>y. f y = f x) xs = [x]"
proof (induction xs)
  case Nil
  then show ?case by simp
next
  case (Cons y ys)
  show ?case
  proof (cases "x = y")
    case True
    with Cons.prems(1) have "f x \<notin> f ` set ys"
      by simp
    then have "filter (\<lambda>z. f z = f x) ys = []"
      unfolding filter_empty_conv by (metis imageI)
    with True show ?thesis by simp
  next
    case False
    with Cons.prems have "x \<in> set ys" "f y \<noteq> f x"
      by auto
    with Cons.IH Cons.prems(1) show ?thesis by simp
  qed
qed

subsection \<open>The graph that is built\<close>

lemma build_emits:
  "\<exists>ns es.
     build i items =
       Inr ((fetch (new_Graph i) items)
              \<lparr>nodes := map cast_node (map_values (cast (fetch (new_Graph i) items))) @ ns,
               edges := es\<rparr>) \<and>
     (\<forall>n \<in> set ns. n_shape n = ''text'') \<and>
     ((\<forall>serie \<in> set (map_values (series (fetch (new_Graph i) items))). s_cast serie = []) \<longrightarrow>
        ns = [] \<and> es = []) \<and>
     (\<forall>e \<in> set es.
        e_from e \<in> set (map n_id ns) \<union> set (map fst (cast (fetch (new_Graph i) items))) \<and>
        e_to e \<in> set (map fst (cast (fetch (new_Graph i) items))))"
proof -
  let ?g0 = "fetch (new_Graph i) items"
  let ?gc = "?g0\<lparr>nodes := map cast_node (map_values (cast ?g0))\<rparr>"
  have en: "edges ?g0 = []" "nodes ?g0 = []"
    using fetch_edges_nodes [of "new_Graph i" items] by (simp_all add: new_Graph_def)
  have gc: "processCast ?g0 = ?gc"
    by (simp add: processCast_eq en)
  have keyed: "keyed_by_id (cast ?gc)"
    by (simp add: keyed_by_id_fetch keyed_by_id_new)
  have "\<forall>serie \<in> set (map_values (series ?gc)). \<forall>p \<in> set (s_cast serie). map_has (cast ?gc) p"
    using fetch_rosters [of "new_Graph i" items] by simp
  from series_forEach_emits [OF this] keyed obtain ns es where
    run: "series_forEach ?gc (map_values (series ?gc)) =
        Inr (?gc\<lparr>nodes := nodes ?gc @ ns, edges := edges ?gc @ es\<rparr>)"
    and t: "\<forall>n \<in> set ns. n_shape n = ''text''"
    and z: "(\<forall>serie \<in> set (map_values (series ?gc)). s_cast serie = []) \<longrightarrow> ns = [] \<and> es = []"
    and c: "\<forall>e \<in> set es. e_from e \<in> set (map n_id ns) \<union> set (map fst (cast ?gc)) \<and>
                          e_to e \<in> set (map fst (cast ?gc))"
    by blast
  have "build i items = series_forEach ?gc (map_values (series ?gc))"
    by (simp add: build_def classify_def processSeries_def gc)
  with run have b: "build i items =
      Inr (?g0\<lparr>nodes := map cast_node (map_values (cast ?g0)) @ ns, edges := es\<rparr>)"
    by (simp add: en)
  from z have z': "(\<forall>serie \<in> set (map_values (series ?g0)). s_cast serie = []) \<longrightarrow> ns = [] \<and> es = []"
    by simp
  from c have c': "\<forall>e \<in> set es. e_from e \<in> set (map n_id ns) \<union> set (map fst (cast ?g0)) \<and>
                          e_to e \<in> set (map fst (cast ?g0))"
    by simp
  from b t z' c' show ?thesis
    by blast
qed

text \<open>
  C5. The program never throws between \<open>fetch\<close> and the end of
  \<open>processSeries\<close>, and in the graph it builds both ends of every edge are ids of
  nodes of the graph.
\<close>

theorem edges_reference_nodes:
  "\<exists>G. build i items = Inr G \<and>
     (\<forall>e \<in> set (edges G). e_from e \<in> set (map n_id (nodes G)) \<and>
                           e_to e \<in> set (map n_id (nodes G)))"
proof -
  let ?g0 = "fetch (new_Graph i) items"
  from build_emits [of i items] obtain ns es where
    b: "build i items = Inr (?g0\<lparr>nodes := map cast_node (map_values (cast ?g0)) @ ns, edges := es\<rparr>)"
    and c: "\<forall>e \<in> set es. e_from e \<in> set (map n_id ns) \<union> set (map fst (cast ?g0)) \<and>
                          e_to e \<in> set (map fst (cast ?g0))"
    by blast
  have "keyed_by_id (cast ?g0)"
    by (simp add: keyed_by_id_fetch keyed_by_id_new)
  then have ids: "map n_id (map cast_node (map_values (cast ?g0))) = map fst (cast ?g0)"
    by (rule keyed_node_ids)
  let ?G = "?g0\<lparr>nodes := map cast_node (map_values (cast ?g0)) @ ns, edges := es\<rparr>"
  have "set (map n_id (nodes ?G)) = set (map fst (cast ?g0)) \<union> set (map n_id ns)"
    using ids by (simp del: map_map)
  with c have "\<forall>e \<in> set (edges ?G). e_from e \<in> set (map n_id (nodes ?G)) \<and>
                           e_to e \<in> set (map n_id (nodes ?G))"
    by auto
  with b show ?thesis
    by blast
qed

theorem edges_reference_nodes_witness:
  "\<exists>G. build ''L'' scenario_BC = Inr G \<and> length (edges G) = 5 \<and>
     (\<forall>e \<in> set (edges G). e_from e \<in> set (map n_id (nodes G)) \<and>
                           e_to e \<in> set (map n_id (nodes G)))"
  using edges_reference_nodes [of "''L''" scenario_BC]
  by (auto simp: build_scenario_BC)

text \<open>
  C7, as the code has it. The program builds a graph for every list of items. When
  every roster is empty after \<open>fetch\<close>, the graph has no edge, and it has one node
  for each cast member of the pruned map, which is at most the number of cast members
  collected before pruning.
\<close>

theorem build_never_fails:
  "(\<exists>G. build i items = Inr G) \<and>
   ((\<forall>serie \<in> set (map_values (series (fetch (new_Graph i) items))). length (s_cast serie) = 0) \<longrightarrow>
      (\<exists>G. build i items = Inr G \<and> edges G = [] \<and>
           length (nodes G) = length (cast (fetch (new_Graph i) items)) \<and>
           length (nodes G) \<le> length (cast (fetch_items (new_Graph i) items))))"
proof -
  let ?g0 = "fetch (new_Graph i) items"
  from build_emits [of i items] obtain ns es where
    b: "build i items = Inr (?g0\<lparr>nodes := map cast_node (map_values (cast ?g0)) @ ns, edges := es\<rparr>)"
    and z: "(\<forall>serie \<in> set (map_values (series ?g0)). s_cast serie = []) \<longrightarrow> ns = [] \<and> es = []"
    by blast
  have le: "length (cast ?g0) \<le> length (cast (fetch_items (new_Graph i) items))"
    by (simp add: fetch_cast keyed_by_id_new)
  from b z le show ?thesis
    by (auto simp: map_values_def)
qed

theorem build_never_fails_witness:
  "map (length \<circ> s_cast) (map_values (series (fetch (new_Graph ''L'') scenario_D))) = [0] \<and>
   (\<exists>G. build ''L'' scenario_D = Inr G \<and> edges G = [] \<and>
        length (nodes G) = length (cast (fetch (new_Graph ''L'') scenario_D)) \<and>
        length (nodes G) \<le> length (cast (fetch_items (new_Graph ''L'') scenario_D)))"
proof -
  have r: "map (length \<circ> s_cast) (map_values (series (fetch (new_Graph ''L'') scenario_D))) = [0]"
    by (simp add: fetch_scenario_D map_values_def)
  have h: "\<forall>serie \<in> set (map_values (series (fetch (new_Graph ''L'') scenario_D))).
      length (s_cast serie) = 0"
    by (simp add: fetch_scenario_D map_values_def)
  from build_never_fails [of "''L''" scenario_D] h r show ?thesis
    by blast
qed

text \<open>
  C7, as the specification states it, fails in Scenario A. No series has two or more
  surviving cast members, both rosters have length 1, and two cast members were
  collected; yet the graph has two edges and three nodes.
\<close>

theorem no_pair_counterexample:
  "map (length \<circ> s_cast) (map_values (series (fetch (new_Graph ''L'') scenario_A))) = [1, 1] \<and>
   length (cast (fetch_items (new_Graph ''L'') scenario_A)) = 2 \<and>
   build ''L'' scenario_A = Inr scenario_A_graph \<and>
   length (edges scenario_A_graph) = 2 \<and>
   length (nodes scenario_A_graph) = 3"
  by (simp add: fetch_scenario_A build_scenario_A map_values_def)
     (simp add: scenario_A_graph_def scenario_A_def new_Graph_def fetch_item_def)

text \<open>
  C8. For each cast member of the pruned map, the graph that is built has exactly one
  node of shape \<open>circularImage\<close> with the id of that cast member; its label is the
  name of the cast member and its image the url.
\<close>

theorem one_node_per_survivor:
  assumes "build i items = Inr G"
    and "c \<in> set (map_values (cast (fetch (new_Graph i) items)))"
  shows "filter (\<lambda>n. n_shape n = ''circularImage'' \<and> n_id n = c_id c) (nodes G) =
     [\<lparr>n_id = c_id c, n_label = c_name c, n_shape = ''circularImage'', n_image = Some (c_url c)\<rparr>]"
proof -
  let ?g0 = "fetch (new_Graph i) items"
  let ?P = "\<lambda>n. n_shape n = ''circularImage'' \<and> n_id n = c_id c"
  from build_emits [of i items] assms(1) obtain ns where
    n: "nodes G = map cast_node (map_values (cast ?g0)) @ ns"
    and t: "\<forall>n \<in> set ns. n_shape n = ''text''"
    by auto
  from t have f2: "filter ?P ns = []"
    by (auto simp: filter_empty_conv)
  have "keyed_by_id (cast ?g0)"
    by (simp add: keyed_by_id_fetch keyed_by_id_new)
  then have "distinct (map c_id (map_values (cast ?g0)))"
    using keyed_node_ids [of "cast ?g0"] by (simp add: keyed_by_id_def cast_node_def comp_def)
  with assms(2) have "filter (\<lambda>x. c_id x = c_id c) (map_values (cast ?g0)) = [c]"
    by (simp add: filter_distinct_key)
  then have f1: "filter ?P (map cast_node (map_values (cast ?g0))) = [cast_node c]"
    by (simp add: filter_map comp_def cast_node_def)
  from n f1 f2 show ?thesis
    by (simp add: cast_node_def)
qed

theorem one_node_per_survivor_witness:
  "(\<exists>G. build ''L'' scenario_BC = Inr G \<and>
     \<lparr>c_id = ''B'', c_name = ''Bob'', c_url = ''b.png''\<rparr>
       \<in> set (map_values (cast (fetch (new_Graph ''L'') scenario_BC))) \<and>
     filter (\<lambda>n. n_shape n = ''circularImage'' \<and> n_id n = ''B'') (nodes G) =
       [\<lparr>n_id = ''B'', n_label = ''Bob'', n_shape = ''circularImage'', n_image = Some ''b.png''\<rparr>])"
proof -
  let ?c = "\<lparr>c_id = ''B'', c_name = ''Bob'', c_url = ''b.png''\<rparr>"
  have mem: "?c \<in> set (map_values (cast (fetch (new_Graph ''L'') scenario_BC)))"
    by (simp add: fetch_scenario_BC map_values_def)
  from one_node_per_survivor [OF build_scenario_BC mem] mem build_scenario_BC show ?thesis
    by simp
qed

subsection \<open>The turn of one series in the loop\<close>

lemma series_forEach_append:
  "series_forEach g (xs @ ys) =
     (case series_forEach g xs of Inl e \<Rightarrow> Inl e | Inr g' \<Rightarrow> series_forEach g' ys)"
  by (induction xs arbitrary: g) (simp_all split: sum.splits)

lemma series_forEach_single:
  "series_forEach g [serie] = processSeries_callback g serie"
  by (simp split: sum.splits)

lemma callback_pair:
  assumes "keyed_by_id (cast g)" and "s_cast serie = [a, b]"
    and "map_has (cast g) a" and "map_has (cast g) b"
  shows "processSeries_callback g serie =
     Inr (g\<lparr>edges := edges g @
              [\<lparr>e_from = a, e_to = b, e_label = Some (s_name serie), e_length = None\<rparr>]\<rparr>)"
proof -
  from assms have "get_id (cast g) (Some a) = Inr a" "get_id (cast g) (Some b) = Inr b"
    by (simp_all add: get_id_keyed)
  then show ?thesis
    by (simp add: processSeries_callback_def processSeriesSingleEdge_def assms(2) array_at_def)
qed

lemma build_split:
  assumes "map_values (series (fetch (new_Graph i) items)) = pre @ serie # post"
  shows "\<exists>G1 G2 G ns es.
     series_forEach (processCast (fetch (new_Graph i) items)) pre = Inr G1 \<and>
     processSeries_callback G1 serie = Inr G2 \<and>
     series_forEach G2 post = Inr G \<and>
     build i items = Inr G \<and>
     nodes G = nodes G2 @ ns \<and> edges G = edges G2 @ es \<and>
     keyed_by_id (cast G1) \<and> (\<forall>p \<in> set (s_cast serie). map_has (cast G1) p)"
proof -
  let ?g0 = "fetch (new_Graph i) items"
  let ?gc = "processCast ?g0"
  have cm: "cast ?gc = cast ?g0" and sm: "series ?gc = series ?g0"
    by (simp_all add: processCast_eq)
  have keyed: "keyed_by_id (cast ?g0)"
    by (simp add: keyed_by_id_fetch keyed_by_id_new)
  have ros: "\<forall>s \<in> set (pre @ serie # post). \<forall>p \<in> set (s_cast s). map_has (cast ?g0) p"
    using fetch_rosters [of "new_Graph i" items] assms by simp
  then have "\<forall>s \<in> set pre. \<forall>p \<in> set (s_cast s). map_has (cast ?gc) p"
    by (auto simp: cm)
  from series_forEach_emits [OF this] obtain ns1 es1 where
    r1: "series_forEach ?gc pre = Inr (?gc\<lparr>nodes := nodes ?gc @ ns1, edges := edges ?gc @ es1\<rparr>)"
    by blast
  let ?G1 = "?gc\<lparr>nodes := nodes ?gc @ ns1, edges := edges ?gc @ es1\<rparr>"
  have c1: "cast ?G1 = cast ?g0"
    by (simp add: cm)
  from ros have here: "\<forall>p \<in> set (s_cast serie). map_has (cast ?G1) p"
    by (auto simp: cm)
  from callback_emits [OF this] obtain ns2 es2 where
    r2: "processSeries_callback ?G1 serie = Inr (?G1\<lparr>nodes := nodes ?G1 @ ns2, edges := edges ?G1 @ es2\<rparr>)"
    by blast
  let ?G2 = "?G1\<lparr>nodes := nodes ?G1 @ ns2, edges := edges ?G1 @ es2\<rparr>"
  from ros have "\<forall>s \<in> set post. \<forall>p \<in> set (s_cast s). map_has (cast ?G2) p"
    by (auto simp: cm)
  from series_forEach_emits [OF this] obtain ns3 es3 where
    r3: "series_forEach ?G2 post = Inr (?G2\<lparr>nodes := nodes ?G2 @ ns3, edges := edges ?G2 @ es3\<rparr>)"
    by blast
  let ?G = "?G2\<lparr>nodes := nodes ?G2 @ ns3, edges := edges ?G2 @ es3\<rparr>"
  have "series_forEach ?gc (pre @ [serie] @ post) = Inr ?G"
    by (simp only: series_forEach_append series_forEach_single r1 r2 r3 sum.case)
  then have b: "build i items = Inr ?G"
    using assms by (simp add: build_def classify_def processSeries_def sm)
  have n: "nodes ?G = nodes ?G2 @ ns3" and e: "edges ?G = edges ?G2 @ es3"
    by simp_all
  have k1: "keyed_by_id (cast ?G1)"
    using keyed by (simp add: cm)
  from r1 r2 r3 b n e k1 here show ?thesis
    by blast
qed

text \<open>
  C1, as the code has it. Take any series of the fetched map, at any place in it.
  When the roster of the series is empty after pruning, its turn in the loop of
  \<open>processSeries\<close> leaves the graph as it is. When exactly one cast member survives
  (a roster of one element, which has no repetition), its turn takes the branch
  \<^verbatim>\<open>serie.cast.length !== 0\<close> and pushes the hub node of the series, of shape
  \<open>text\<close> and without image, and one unlabeled edge from the hub to that cast member;
  nothing else changes, and the later series only append.
  In the statement, \<open>G1\<close> is the graph when the loop of \<open>processSeries\<close>
  reaches the series, \<open>G2\<close> the graph after the turn of the series, and \<open>G\<close> the
  graph that the program builds; \<open>ns\<close> and \<open>es\<close> are what the later series push.
\<close>

theorem classify_no_or_one_survivor:
  assumes "map_values (series (fetch (new_Graph i) items)) = pre @ serie # post"
  shows "\<exists>G1 G2 G ns es.
     series_forEach (processCast (fetch (new_Graph i) items)) pre = Inr G1 \<and>
     series_forEach G1 [serie] = Inr G2 \<and>
     series_forEach G2 post = Inr G \<and>
     build i items = Inr G \<and>
     nodes G = nodes G2 @ ns \<and> edges G = edges G2 @ es \<and>
     (s_cast serie = [] \<longrightarrow> G2 = G1) \<and>
     (\<forall>p. s_cast serie = [p] \<longrightarrow>
        G2 = G1\<lparr>nodes := nodes G1 @
                    [\<lparr>n_id = s_id serie, n_label = s_name serie, n_shape = ''text'',
                      n_image = None\<rparr>],
                  edges := edges G1 @
                    [\<lparr>e_from = s_id serie, e_to = p, e_label = None, e_length = None\<rparr>]\<rparr>)"
proof -
  from build_split [OF assms] obtain G1 G2 G ns es where
    r1: "series_forEach (processCast (fetch (new_Graph i) items)) pre = Inr G1"
    and r2: "processSeries_callback G1 serie = Inr G2"
    and r3: "series_forEach G2 post = Inr G"
    and b: "build i items = Inr G"
    and n: "nodes G = nodes G2 @ ns" and e: "edges G = edges G2 @ es"
    by blast
  from r2 have s: "series_forEach G1 [serie] = Inr G2"
    by (simp only: series_forEach_single)
  from r2 have zero: "s_cast serie = [] \<longrightarrow> G2 = G1"
    by (auto simp: processSeries_callback_def)
  from r2 have one: "\<forall>p. s_cast serie = [p] \<longrightarrow>
        G2 = G1\<lparr>nodes := nodes G1 @
                    [\<lparr>n_id = s_id serie, n_label = s_name serie, n_shape = ''text'',
                      n_image = None\<rparr>],
                  edges := edges G1 @
                    [\<lparr>e_from = s_id serie, e_to = p, e_label = None, e_length = None\<rparr>]\<rparr>"
    by (auto simp: processSeries_callback_def processSeriesMutipleEdges_eq hub_node_def hub_edge_def)
  from r1 s r3 b n e zero one show ?thesis
    by blast
qed

theorem classify_no_or_one_survivor_witness:
  "map_values (series (fetch (new_Graph ''L'') scenario_D)) =
     [] @ \<lparr>s_id = ''1'', s_name = ''Show1'', s_cast = []\<rparr> # [] \<and>
   (\<exists>G1 G.
      series_forEach (processCast (fetch (new_Graph ''L'') scenario_D)) [] = Inr G1 \<and>
      series_forEach G1 [\<lparr>s_id = ''1'', s_name = ''Show1'', s_cast = []\<rparr>] = Inr G1 \<and>
      series_forEach G1 [] = Inr G \<and>
      build ''L'' scenario_D = Inr G) \<and>
   map_values (series (fetch (new_Graph ''L'') scenario_A)) =
     [] @ \<lparr>s_id = ''1'', s_name = ''Show1'', s_cast = [''X'']\<rparr> #
       [\<lparr>s_id = ''2'', s_name = ''Show2'', s_cast = [''X'']\<rparr>] \<and>
   (\<exists>G1 G2 G.
      series_forEach (processCast (fetch (new_Graph ''L'') scenario_A)) [] = Inr G1 \<and>
      series_forEach G1 [\<lparr>s_id = ''1'', s_name = ''Show1'', s_cast = [''X'']\<rparr>] = Inr G2 \<and>
      series_forEach G2 [\<lparr>s_id = ''2'', s_name = ''Show2'', s_cast = [''X'']\<rparr>] = Inr G \<and>
      build ''L'' scenario_A = Inr G \<and>
      G2 = G1\<lparr>nodes := nodes G1 @
                  [\<lparr>n_id = ''1'', n_label = ''Show1'', n_shape = ''text'', n_image = None\<rparr>],
                edges := edges G1 @
                  [\<lparr>e_from = ''1'', e_to = ''X'', e_label = None, e_length = None\<rparr>]\<rparr>)"
proof -
  let ?sD = "\<lparr>s_id = ''1'', s_name = ''Show1'', s_cast = []\<rparr>"
  let ?s1 = "\<lparr>s_id = ''1'', s_name = ''Show1'', s_cast = [''X'']\<rparr>"
  let ?s2 = "\<lparr>s_id = ''2'', s_name = ''Show2'', s_cast = [''X'']\<rparr>"
  have splitD: "map_values (series (fetch (new_Graph ''L'') scenario_D)) = [] @ ?sD # []"
    by (simp add: fetch_scenario_D map_values_def)
  have splitA: "map_values (series (fetch (new_Graph ''L'') scenario_A)) = [] @ ?s1 # [?s2]"
    by (simp add: fetch_scenario_A map_values_def)
  from classify_no_or_one_survivor [OF splitD] obtain G1 G2 G where
    "series_forEach (processCast (fetch (new_Graph ''L'') scenario_D)) [] = Inr G1"
    "series_forEach G1 [?sD] = Inr G2" "series_forEach G2 [] = Inr G"
    "build ''L'' scenario_D = Inr G" "s_cast ?sD = [] \<longrightarrow> G2 = G1"
    by blast
  then have exD: "\<exists>G1 G.
      series_forEach (processCast (fetch (new_Graph ''L'') scenario_D)) [] = Inr G1 \<and>
      series_forEach G1 [?sD] = Inr G1 \<and> series_forEach G1 [] = Inr G \<and>
      build ''L'' scenario_D = Inr G"
    by auto
  from classify_no_or_one_survivor [OF splitA] obtain H1 H2 H where
    "series_forEach (processCast (fetch (new_Graph ''L'') scenario_A)) [] = Inr H1"
    "series_forEach H1 [?s1] = Inr H2" "series_forEach H2 [?s2] = Inr H"
    "build ''L'' scenario_A = Inr H"
    "\<forall>p. s_cast ?s1 = [p] \<longrightarrow>
        H2 = H1\<lparr>nodes := nodes H1 @
                    [\<lparr>n_id = s_id ?s1, n_label = s_name ?s1, n_shape = ''text'', n_image = None\<rparr>],
                  edges := edges H1 @
                    [\<lparr>e_from = s_id ?s1, e_to = p, e_label = None, e_length = None\<rparr>]\<rparr>"
    by blast
  then have exA: "\<exists>G1 G2 G.
      series_forEach (processCast (fetch (new_Graph ''L'') scenario_A)) [] = Inr G1 \<and>
      series_forEach G1 [?s1] = Inr G2 \<and> series_forEach G2 [?s2] = Inr G \<and>
      build ''L'' scenario_A = Inr G \<and>
      G2 = G1\<lparr>nodes := nodes G1 @
                  [\<lparr>n_id = ''1'', n_label = ''Show1'', n_shape = ''text'', n_image = None\<rparr>],
                edges := edges G1 @
                  [\<lparr>e_from = ''1'', e_to = ''X'', e_label = None, e_length = None\<rparr>]\<rparr>"
    by auto
  from splitD exD splitA exA show ?thesis
    by blast
qed

text \<open>
  C1, as the specification states it, fails in Scenario A. After \<open>fetch\<close> both
  series have the roster \<open>[X]\<close>, one surviving cast member each, and the graph that
  is built holds a hub node and an edge for each of them.
\<close>

theorem single_survivor_counterexample:
  "series (fetch (new_Graph ''L'') scenario_A) =
     [(''1'', \<lparr>s_id = ''1'', s_name = ''Show1'', s_cast = [''X'']\<rparr>),
      (''2'', \<lparr>s_id = ''2'', s_name = ''Show2'', s_cast = [''X'']\<rparr>)] \<and>
   build ''L'' scenario_A =
     Inr \<lparr>cast = [(''X'', \<lparr>c_id = ''X'', c_name = ''Xi'', c_url = ''x.png''\<rparr>)],
      series = [(''1'', \<lparr>s_id = ''1'', s_name = ''Show1'', s_cast = [''X'']\<rparr>),
                (''2'', \<lparr>s_id = ''2'', s_name = ''Show2'', s_cast = [''X'']\<rparr>)],
      edges = [\<lparr>e_from = ''1'', e_to = ''X'', e_label = None, e_length = None\<rparr>,
               \<lparr>e_from = ''2'', e_to = ''X'', e_label = None, e_length = None\<rparr>],
      nodes = [\<lparr>n_id = ''X'', n_label = ''Xi'', n_shape = ''circularImage'', n_image = Some ''x.png''\<rparr>,
               \<lparr>n_id = ''1'', n_label = ''Show1'', n_shape = ''text'', n_image = None\<rparr>,
               \<lparr>n_id = ''2'', n_label = ''Show2'', n_shape = ''text'', n_image = None\<rparr>],
      list_id = ''L''\<rparr>"
  by (simp add: fetch_scenario_A build_scenario_A scenario_A_graph_def)

text \<open>
  C3. Take any series of the fetched map, at any place in it, with exactly two
  surviving cast members: a roster of length 2 without repetition. Its turn in the loop
  of \<open>processSeries\<close> pushes exactly one edge, from the first to the second of them,
  labeled with the name of the series, and leaves the nodes as they are, so no hub node
  is made for it; the later series only append to the graph that is built.
  In the statement, \<open>G1\<close> is the graph when the loop of \<open>processSeries\<close>
  reaches the series, \<open>G2\<close> the graph after the turn of the series, and \<open>G\<close> the
  graph that the program builds; \<open>ns\<close> and \<open>es\<close> are what the later series push.
\<close>

theorem classify_two_survivors:
  assumes "map_values (series (fetch (new_Graph i) items)) = pre @ serie # post"
    and "length (s_cast serie) = 2" and "distinct (s_cast serie)"
  shows "\<exists>G1 G2 G ns es.
     series_forEach (processCast (fetch (new_Graph i) items)) pre = Inr G1 \<and>
     series_forEach G1 [serie] = Inr G2 \<and>
     series_forEach G2 post = Inr G \<and>
     build i items = Inr G \<and>
     nodes G = nodes G2 @ ns \<and> edges G = edges G2 @ es \<and>
     G2 = G1\<lparr>edges := edges G1 @
                 [\<lparr>e_from = s_cast serie ! 0, e_to = s_cast serie ! 1,
                   e_label = Some (s_name serie), e_length = None\<rparr>]\<rparr>"
proof -
  from build_split [OF assms(1)] obtain G1 G2 G ns es where
    r1: "series_forEach (processCast (fetch (new_Graph i) items)) pre = Inr G1"
    and r2: "processSeries_callback G1 serie = Inr G2"
    and r3: "series_forEach G2 post = Inr G"
    and b: "build i items = Inr G"
    and n: "nodes G = nodes G2 @ ns" and e: "edges G = edges G2 @ es"
    and k: "keyed_by_id (cast G1)" and h: "\<forall>p \<in> set (s_cast serie). map_has (cast G1) p"
    by blast
  from r2 have s: "series_forEach G1 [serie] = Inr G2"
    by (simp only: series_forEach_single)
  from assms(2) obtain x y where xy: "s_cast serie = [x, y]"
    using length_two by blast
  with h have "map_has (cast G1) x" "map_has (cast G1) y"
    by simp_all
  from callback_pair [OF k xy this] r2 xy
  have g2: "G2 = G1\<lparr>edges := edges G1 @
                 [\<lparr>e_from = s_cast serie ! 0, e_to = s_cast serie ! 1,
                   e_label = Some (s_name serie), e_length = None\<rparr>]\<rparr>"
    by simp
  from r1 s r3 b n e g2 show ?thesis
    by blast
qed

theorem classify_two_survivors_witness:
  "map_values (series (fetch (new_Graph ''L'') scenario_BC)) =
     [] @ \<lparr>s_id = ''1'', s_name = ''Show1'', s_cast = [''A'', ''B'']\<rparr> #
       [\<lparr>s_id = ''2'', s_name = ''Show2'', s_cast = [''A'', ''B'', ''C'']\<rparr>,
        \<lparr>s_id = ''3'', s_name = ''Show3'', s_cast = [''C'']\<rparr>] \<and>
   length (s_cast \<lparr>s_id = ''1'', s_name = ''Show1'', s_cast = [''A'', ''B'']\<rparr>) = 2 \<and>
   distinct (s_cast \<lparr>s_id = ''1'', s_name = ''Show1'', s_cast = [''A'', ''B'']\<rparr>) \<and>
   (\<exists>G1 G2 G.
      series_forEach (processCast (fetch (new_Graph ''L'') scenario_BC)) [] = Inr G1 \<and>
      series_forEach G1 [\<lparr>s_id = ''1'', s_name = ''Show1'', s_cast = [''A'', ''B'']\<rparr>] = Inr G2 \<and>
      series_forEach G2 [\<lparr>s_id = ''2'', s_name = ''Show2'', s_cast = [''A'', ''B'', ''C'']\<rparr>,
                         \<lparr>s_id = ''3'', s_name = ''Show3'', s_cast = [''C'']\<rparr>] = Inr G \<and>
      build ''L'' scenario_BC = Inr G \<and>
      G2 = G1\<lparr>edges := edges G1 @
                  [\<lparr>e_from = ''A'', e_to = ''B'', e_label = Some ''Show1'', e_length = None\<rparr>]\<rparr>)"
proof -
  let ?s1 = "\<lparr>s_id = ''1'', s_name = ''Show1'', s_cast = [''A'', ''B'']\<rparr>"
  let ?post = "[\<lparr>s_id = ''2'', s_name = ''Show2'', s_cast = [''A'', ''B'', ''C'']\<rparr>,
                \<lparr>s_id = ''3'', s_name = ''Show3'', s_cast = [''C'']\<rparr>]"
  have split: "map_values (series (fetch (new_Graph ''L'') scenario_BC)) = [] @ ?s1 # ?post"
    by (simp add: fetch_scenario_BC map_values_def)
  have len: "length (s_cast ?s1) = 2" and dist: "distinct (s_cast ?s1)"
    by simp_all
  from classify_two_survivors [OF split len dist] obtain G1 G2 G where
    "series_forEach (processCast (fetch (new_Graph ''L'') scenario_BC)) [] = Inr G1"
    "series_forEach G1 [?s1] = Inr G2" "series_forEach G2 ?post = Inr G"
    "build ''L'' scenario_BC = Inr G"
    "G2 = G1\<lparr>edges := edges G1 @
                 [\<lparr>e_from = s_cast ?s1 ! 0, e_to = s_cast ?s1 ! 1,
                   e_label = Some (s_name ?s1), e_length = None\<rparr>]\<rparr>"
    by blast
  then have ex: "\<exists>G1 G2 G.
      series_forEach (processCast (fetch (new_Graph ''L'') scenario_BC)) [] = Inr G1 \<and>
      series_forEach G1 [?s1] = Inr G2 \<and> series_forEach G2 ?post = Inr G \<and>
      build ''L'' scenario_BC = Inr G \<and>
      G2 = G1\<lparr>edges := edges G1 @
                  [\<lparr>e_from = ''A'', e_to = ''B'', e_label = Some ''Show1'', e_length = None\<rparr>]\<rparr>"
    by auto
  from split len dist ex show ?thesis
    by blast
qed

text \<open>
  C4. Take any series of the fetched map, at any place in it, with three or more
  surviving cast members: a roster of length at least 3 without repetition. Its turn in
  the loop of \<open>processSeries\<close> pushes exactly one node, the hub, whose id is the id of
  the series, whose label is its name, whose shape is \<open>text\<close> and which has no
  image; and it pushes unlabeled edges from the hub, exactly one to each surviving cast
  member, as many as there are surviving cast members. The later series only append to
  the graph that is built.
  In the statement, \<open>G1\<close> is the graph when the loop of \<open>processSeries\<close>
  reaches the series, \<open>G2\<close> the graph after the turn of the series, and \<open>G\<close> the
  graph that the program builds; \<open>ns\<close> and \<open>es\<close> are what the later series push.
\<close>

theorem classify_three_or_more_survivors:
  assumes "map_values (series (fetch (new_Graph i) items)) = pre @ serie # post"
    and "3 \<le> length (s_cast serie)" and "distinct (s_cast serie)"
  shows "\<exists>G1 G2 G ns es hub spokes.
     series_forEach (processCast (fetch (new_Graph i) items)) pre = Inr G1 \<and>
     series_forEach G1 [serie] = Inr G2 \<and>
     series_forEach G2 post = Inr G \<and>
     build i items = Inr G \<and>
     nodes G = nodes G2 @ ns \<and> edges G = edges G2 @ es \<and>
     G2 = G1\<lparr>nodes := nodes G1 @ [hub], edges := edges G1 @ spokes\<rparr> \<and>
     hub = \<lparr>n_id = s_id serie, n_label = s_name serie, n_shape = ''text'', n_image = None\<rparr> \<and>
     spokes = map (\<lambda>p. \<lparr>e_from = n_id hub, e_to = p, e_label = None, e_length = None\<rparr>)
                (s_cast serie) \<and>
     length spokes = card (set (s_cast serie)) \<and>
     (\<forall>p \<in> set (s_cast serie). length (filter (\<lambda>e. e_to e = p) spokes) = 1)"
proof -
  from build_split [OF assms(1)] obtain G1 G2 G ns es where
    r1: "series_forEach (processCast (fetch (new_Graph i) items)) pre = Inr G1"
    and r2: "processSeries_callback G1 serie = Inr G2"
    and r3: "series_forEach G2 post = Inr G"
    and b: "build i items = Inr G"
    and n: "nodes G = nodes G2 @ ns" and e: "edges G = edges G2 @ es"
    by blast
  from r2 have s: "series_forEach G1 [serie] = Inr G2"
    by (simp only: series_forEach_single)
  from callback_three_or_more [OF assms(2), of G1] r2 obtain hub spokes where
    g2: "G2 = G1\<lparr>nodes := nodes G1 @ [hub], edges := edges G1 @ spokes\<rparr>"
    and hub: "hub = \<lparr>n_id = s_id serie, n_label = s_name serie, n_shape = ''text'', n_image = None\<rparr>"
    and sp: "spokes = map (\<lambda>p. \<lparr>e_from = n_id hub, e_to = p, e_label = None, e_length = None\<rparr>)
                (s_cast serie)"
    and len: "length spokes = length (s_cast serie)"
    and uniq: "distinct (s_cast serie) \<longrightarrow>
        (\<forall>p \<in> set (s_cast serie). length (filter (\<lambda>e. e_to e = p) spokes) = 1)"
    by auto
  from len assms(3) have card: "length spokes = card (set (s_cast serie))"
    by (simp add: distinct_card)
  from uniq assms(3) have u: "\<forall>p \<in> set (s_cast serie). length (filter (\<lambda>e. e_to e = p) spokes) = 1"
    by blast
  from r1 s r3 b n e g2 hub sp card u show ?thesis
    by blast
qed

theorem classify_three_or_more_survivors_witness:
  "map_values (series (fetch (new_Graph ''L'') scenario_BC)) =
     [\<lparr>s_id = ''1'', s_name = ''Show1'', s_cast = [''A'', ''B'']\<rparr>] @
       \<lparr>s_id = ''2'', s_name = ''Show2'', s_cast = [''A'', ''B'', ''C'']\<rparr> #
       [\<lparr>s_id = ''3'', s_name = ''Show3'', s_cast = [''C'']\<rparr>] \<and>
   3 \<le> length (s_cast \<lparr>s_id = ''2'', s_name = ''Show2'', s_cast = [''A'', ''B'', ''C'']\<rparr>) \<and>
   distinct (s_cast \<lparr>s_id = ''2'', s_name = ''Show2'', s_cast = [''A'', ''B'', ''C'']\<rparr>) \<and>
   (\<exists>G1 G2 G.
      series_forEach (processCast (fetch (new_Graph ''L'') scenario_BC))
        [\<lparr>s_id = ''1'', s_name = ''Show1'', s_cast = [''A'', ''B'']\<rparr>] = Inr G1 \<and>
      series_forEach G1 [\<lparr>s_id = ''2'', s_name = ''Show2'', s_cast = [''A'', ''B'', ''C'']\<rparr>] = Inr G2 \<and>
      series_forEach G2 [\<lparr>s_id = ''3'', s_name = ''Show3'', s_cast = [''C'']\<rparr>] = Inr G \<and>
      build ''L'' scenario_BC = Inr G \<and>
      G2 = G1\<lparr>nodes := nodes G1 @
                  [\<lparr>n_id = ''2'', n_label = ''Show2'', n_shape = ''text'', n_image = None\<rparr>],
                edges := edges G1 @
                  [\<lparr>e_from = ''2'', e_to = ''A'', e_label = None, e_length = None\<rparr>,
                   \<lparr>e_from = ''2'', e_to = ''B'', e_label = None, e_length = None\<rparr>,
                   \<lparr>e_from = ''2'', e_to = ''C'', e_label = None, e_length = None\<rparr>]\<rparr>)"
proof -
  let ?s1 = "\<lparr>s_id = ''1'', s_name = ''Show1'', s_cast = [''A'', ''B'']\<rparr>"
  let ?s2 = "\<lparr>s_id = ''2'', s_name = ''Show2'', s_cast = [''A'', ''B'', ''C'']\<rparr>"
  let ?s3 = "\<lparr>s_id = ''3'', s_name = ''Show3'', s_cast = [''C'']\<rparr>"
  have split: "map_values (series (fetch (new_Graph ''L'') scenario_BC)) = [?s1] @ ?s2 # [?s3]"
    by (simp add: fetch_scenario_BC map_values_def)
  have len: "3 \<le> length (s_cast ?s2)" and dist: "distinct (s_cast ?s2)"
    by simp_all
  from classify_three_or_more_survivors [OF split len dist] obtain G1 G2 G hub spokes where
    "series_forEach (processCast (fetch (new_Graph ''L'') scenario_BC)) [?s1] = Inr G1"
    "series_forEach G1 [?s2] = Inr G2" "series_forEach G2 [?s3] = Inr G"
    "build ''L'' scenario_BC = Inr G"
    "G2 = G1\<lparr>nodes := nodes G1 @ [hub], edges := edges G1 @ spokes\<rparr>"
    "hub = \<lparr>n_id = s_id ?s2, n_label = s_name ?s2, n_shape = ''text'', n_image = None\<rparr>"
    "spokes = map (\<lambda>p. \<lparr>e_from = n_id hub, e_to = p, e_label = None, e_length = None\<rparr>)
                (s_cast ?s2)"
    by blast
  then have ex: "\<exists>G1 G2 G.
      series_forEach (processCast (fetch (new_Graph ''L'') scenario_BC)) [?s1] = Inr G1 \<and>
      series_forEach G1 [?s2] = Inr G2 \<and> series_forEach G2 [?s3] = Inr G \<and>
      build ''L'' scenario_BC = Inr G \<and>
      G2 = G1\<lparr>nodes := nodes G1 @
                  [\<lparr>n_id = ''2'', n_label = ''Show2'', n_shape = ''text'', n_image = None\<rparr>],
                edges := edges G1 @
                  [\<lparr>e_from = ''2'', e_to = ''A'', e_label = None, e_length = None\<rparr>,
                   \<lparr>e_from = ''2'', e_to = ''B'', e_label = None, e_length = None\<rparr>,
                   \<lparr>e_from = ''2'', e_to = ''C'', e_label = None, e_length = None\<rparr>]\<rparr>"
    by auto
  from split len dist ex show ?thesis
    by blast
qed

subsection \<open>What a run appends\<close>

lemma callback_frame_Inr:
  assumes "processSeries_callback g serie = Inr g'"
  shows "\<exists>ns es.
     g' = g\<lparr>nodes := nodes g @ ns, edges := edges g @ es\<rparr> \<and>
     (\<forall>h. cast h = cast g \<longrightarrow>
        processSeries_callback h serie = Inr (h\<lparr>nodes := nodes h @ ns, edges := edges h @ es\<rparr>))"
proof (cases "length (s_cast serie) = 2")
  case True
  with assms have "processSeriesSingleEdge g serie = Inr g'"
    by (simp add: processSeries_callback_def)
  then obtain f t where f: "get_id (cast g) (array_at (s_cast serie) 0) = Inr f"
    and t: "get_id (cast g) (array_at (s_cast serie) 1) = Inr t"
    and g': "g' = g\<lparr>edges := edges g @
        [\<lparr>e_from = f, e_to = t, e_label = Some (s_name serie), e_length = None\<rparr>]\<rparr>"
    by (auto simp: processSeriesSingleEdge_def split: sum.splits)
  let ?es = "[\<lparr>e_from = f, e_to = t, e_label = Some (s_name serie), e_length = None\<rparr>]"
  have "g' = g\<lparr>nodes := nodes g @ [], edges := edges g @ ?es\<rparr>"
    by (simp add: g')
  moreover have "\<forall>h. cast h = cast g \<longrightarrow>
      processSeries_callback h serie = Inr (h\<lparr>nodes := nodes h @ [], edges := edges h @ ?es\<rparr>)"
    using True f t by (simp add: processSeries_callback_def processSeriesSingleEdge_def)
  ultimately show ?thesis
    by blast
next
  case False
  show ?thesis
  proof (cases "length (s_cast serie) = 0")
    case True
    with assms have "g' = g\<lparr>nodes := nodes g @ [], edges := edges g @ []\<rparr>"
      by (simp add: processSeries_callback_def)
    moreover have "\<forall>h. cast h = cast g \<longrightarrow>
        processSeries_callback h serie = Inr (h\<lparr>nodes := nodes h @ [], edges := edges h @ []\<rparr>)"
      using True by (simp add: processSeries_callback_def)
    ultimately show ?thesis
      by blast
  next
    case ne: False
    let ?ns = "[hub_node serie]"
    let ?es = "map (hub_edge serie) (s_cast serie)"
    from assms False ne have "g' = g\<lparr>nodes := nodes g @ ?ns, edges := edges g @ ?es\<rparr>"
      by (simp add: processSeries_callback_def processSeriesMutipleEdges_eq)
    moreover have "\<forall>h. cast h = cast g \<longrightarrow>
        processSeries_callback h serie = Inr (h\<lparr>nodes := nodes h @ ?ns, edges := edges h @ ?es\<rparr>)"
      using False ne by (simp add: processSeries_callback_def processSeriesMutipleEdges_eq)
    ultimately show ?thesis
      by blast
  qed
qed

lemma callback_frame_Inl:
  "processSeries_callback g serie = Inl e \<Longrightarrow> cast h = cast g \<Longrightarrow>
   processSeries_callback h serie = Inl e"
  by (auto simp: processSeries_callback_def processSeriesSingleEdge_def split: if_splits sum.splits)

lemma series_forEach_frame_Inr:
  "series_forEach g ss = Inr g' \<Longrightarrow>
   \<exists>ns es.
     g' = g\<lparr>nodes := nodes g @ ns, edges := edges g @ es\<rparr> \<and>
     (\<forall>h. cast h = cast g \<longrightarrow>
        series_forEach h ss = Inr (h\<lparr>nodes := nodes h @ ns, edges := edges h @ es\<rparr>))"
proof (induction ss arbitrary: g)
  case Nil
  then have "g' = g\<lparr>nodes := nodes g @ [], edges := edges g @ []\<rparr>"
    by simp
  moreover have "\<forall>h. cast h = cast g \<longrightarrow>
      series_forEach h [] = Inr (h\<lparr>nodes := nodes h @ [], edges := edges h @ []\<rparr>)"
    by simp
  ultimately show ?case
    by blast
next
  case (Cons serie ss)
  from Cons.prems obtain g1 where s1: "processSeries_callback g serie = Inr g1"
    and s2: "series_forEach g1 ss = Inr g'"
    by (auto split: sum.splits)
  from callback_frame_Inr [OF s1] obtain ns1 es1 where
    g1: "g1 = g\<lparr>nodes := nodes g @ ns1, edges := edges g @ es1\<rparr>"
    and h1: "\<forall>h. cast h = cast g \<longrightarrow>
        processSeries_callback h serie = Inr (h\<lparr>nodes := nodes h @ ns1, edges := edges h @ es1\<rparr>)"
    by blast
  from Cons.IH [OF s2] obtain ns2 es2 where
    g2: "g' = g1\<lparr>nodes := nodes g1 @ ns2, edges := edges g1 @ es2\<rparr>"
    and h2: "\<forall>h. cast h = cast g1 \<longrightarrow>
        series_forEach h ss = Inr (h\<lparr>nodes := nodes h @ ns2, edges := edges h @ es2\<rparr>)"
    by blast
  have "g' = g\<lparr>nodes := nodes g @ (ns1 @ ns2), edges := edges g @ (es1 @ es2)\<rparr>"
    by (simp add: g2 g1)
  moreover have "\<forall>h. cast h = cast g \<longrightarrow>
      series_forEach h (serie # ss) =
        Inr (h\<lparr>nodes := nodes h @ (ns1 @ ns2), edges := edges h @ (es1 @ es2)\<rparr>)"
  proof (intro allI impI)
    fix h :: Graph
    assume c: "cast h = cast g"
    let ?h1 = "h\<lparr>nodes := nodes h @ ns1, edges := edges h @ es1\<rparr>"
    from h1 c have a: "processSeries_callback h serie = Inr ?h1"
      by blast
    have "cast ?h1 = cast g1"
      by (simp add: c g1)
    with h2 have "series_forEach ?h1 ss = Inr (?h1\<lparr>nodes := nodes ?h1 @ ns2, edges := edges ?h1 @ es2\<rparr>)"
      by blast
    with a show "series_forEach h (serie # ss) =
        Inr (h\<lparr>nodes := nodes h @ (ns1 @ ns2), edges := edges h @ (es1 @ es2)\<rparr>)"
      by simp
  qed
  ultimately show ?case
    by blast
qed

lemma series_forEach_frame_Inl:
  "series_forEach g ss = Inl e \<Longrightarrow> cast h = cast g \<Longrightarrow> series_forEach h ss = Inl e"
proof (induction ss arbitrary: g h)
  case Nil
  then show ?case by simp
next
  case (Cons serie ss)
  show ?case
  proof (cases "processSeries_callback g serie")
    case (Inl e')
    with Cons.prems(1) have "e' = e"
      by simp
    with Inl callback_frame_Inl [OF _ Cons.prems(2)] show ?thesis
      by simp
  next
    case (Inr g1)
    with Cons.prems(1) have s2: "series_forEach g1 ss = Inl e"
      by simp
    from callback_frame_Inr [OF Inr] Cons.prems(2) obtain h1 where
      a: "processSeries_callback h serie = Inr h1" and c: "cast h1 = cast g1"
      by auto
    from Cons.IH [OF s2 c] a show ?thesis
      by simp
  qed
qed

text \<open>
  C9. What \<open>processCast\<close> and \<open>processSeries\<close> append is fixed by the cast map and
  the series map alone: two graphs with the same two maps get the same nodes \<open>ns\<close> and
  the same edges \<open>es\<close> appended, whatever their arrays held before, and the one run
  throws exactly when the other does. The maps are left as they were, so a second run
  on the graph of the first appends \<open>ns\<close> and \<open>es\<close> once more: the arrays then hold
  each of these nodes and edges twice, and as sets they are what they were after the
  first run.
\<close>

theorem classify_emission_fixed_by_maps:
  assumes "cast h = cast g" and "series h = series g"
  shows "(\<forall>e. classify g = Inl e \<longrightarrow> classify h = Inl e) \<and>
         (\<forall>g1. classify g = Inr g1 \<longrightarrow>
            (\<exists>ns es.
               g1 = g\<lparr>nodes := nodes g @ ns, edges := edges g @ es\<rparr> \<and>
               classify h = Inr (h\<lparr>nodes := nodes h @ ns, edges := edges h @ es\<rparr>) \<and>
               classify g1 = Inr (g\<lparr>nodes := nodes g @ ns @ ns, edges := edges g @ es @ es\<rparr>) \<and>
               set (nodes g @ ns @ ns) = set (nodes g1) \<and>
               set (edges g @ es @ es) = set (edges g1)))"
proof (intro conjI allI impI)
  fix e
  assume "classify g = Inl e"
  then have "series_forEach (processCast g) (map_values (series g)) = Inl e"
    by (simp add: classify_def processSeries_def processCast_eq)
  from series_forEach_frame_Inl [OF this, of "processCast h"] assms
  show "classify h = Inl e"
    by (simp add: classify_def processSeries_def processCast_eq)
next
  fix g1
  assume "classify g = Inr g1"
  then have run: "series_forEach (processCast g) (map_values (series g)) = Inr g1"
    by (simp add: classify_def processSeries_def processCast_eq)
  let ?cn = "map cast_node (map_values (cast g))"
  from series_forEach_frame_Inr [OF run] obtain ns es where
    g1: "g1 = (processCast g)\<lparr>nodes := nodes (processCast g) @ ns, edges := edges (processCast g) @ es\<rparr>"
    and fr: "\<forall>k. cast k = cast (processCast g) \<longrightarrow>
        series_forEach k (map_values (series g)) = Inr (k\<lparr>nodes := nodes k @ ns, edges := edges k @ es\<rparr>)"
    by blast
  have a: "g1 = g\<lparr>nodes := nodes g @ (?cn @ ns), edges := edges g @ es\<rparr>"
    by (simp add: g1 processCast_eq)
  have again: "classify k = Inr (k\<lparr>nodes := nodes k @ (?cn @ ns), edges := edges k @ es\<rparr>)"
    if "cast k = cast g" "series k = series g" for k
  proof -
    have "cast (processCast k) = cast (processCast g)"
      using that by (simp add: processCast_eq)
    with fr have "series_forEach (processCast k) (map_values (series g)) =
        Inr ((processCast k)\<lparr>nodes := nodes (processCast k) @ ns, edges := edges (processCast k) @ es\<rparr>)"
      by blast
    then show ?thesis
      using that by (simp add: classify_def processSeries_def processCast_eq)
  qed
  have b: "classify h = Inr (h\<lparr>nodes := nodes h @ (?cn @ ns), edges := edges h @ es\<rparr>)"
    using assms by (rule again)
  have "cast g1 = cast g" "series g1 = series g"
    by (simp_all add: a)
  then have "classify g1 = Inr (g1\<lparr>nodes := nodes g1 @ (?cn @ ns), edges := edges g1 @ es\<rparr>)"
    by (rule again)
  then have c: "classify g1 =
      Inr (g\<lparr>nodes := nodes g @ (?cn @ ns) @ (?cn @ ns), edges := edges g @ es @ es\<rparr>)"
    by (simp add: a)
  have d: "set (nodes g @ (?cn @ ns) @ (?cn @ ns)) = set (nodes g1)"
    "set (edges g @ es @ es) = set (edges g1)"
    by (auto simp: a)
  from a b c d show "\<exists>ns es.
               g1 = g\<lparr>nodes := nodes g @ ns, edges := edges g @ es\<rparr> \<and>
               classify h = Inr (h\<lparr>nodes := nodes h @ ns, edges := edges h @ es\<rparr>) \<and>
               classify g1 = Inr (g\<lparr>nodes := nodes g @ ns @ ns, edges := edges g @ es @ es\<rparr>) \<and>
               set (nodes g @ ns @ ns) = set (nodes g1) \<and>
               set (edges g @ es @ es) = set (edges g1)"
    by blast
qed

theorem classify_emission_fixed_by_maps_witness:
  "cast scenario_A_graph = cast (fetch (new_Graph ''L'') scenario_A) \<and>
   series scenario_A_graph = series (fetch (new_Graph ''L'') scenario_A) \<and>
   classify (fetch (new_Graph ''L'') scenario_A) = Inr scenario_A_graph \<and>
   classify scenario_A_graph =
     Inr (scenario_A_graph
            \<lparr>nodes := nodes scenario_A_graph @ nodes scenario_A_graph,
             edges := edges scenario_A_graph @ edges scenario_A_graph\<rparr>)"
proof -
  let ?g = "fetch (new_Graph ''L'') scenario_A"
  have c: "cast scenario_A_graph = cast ?g" and s: "series scenario_A_graph = series ?g"
    by (simp_all add: fetch_scenario_A scenario_A_graph_def)
  have run: "classify ?g = Inr scenario_A_graph"
    using build_scenario_A by (simp add: build_def)
  have en: "nodes ?g = []" "edges ?g = []"
    by (simp_all add: fetch_scenario_A)
  from classify_emission_fixed_by_maps [OF c s] run obtain ns es where
    a: "scenario_A_graph = ?g\<lparr>nodes := nodes ?g @ ns, edges := edges ?g @ es\<rparr>"
    and b: "classify scenario_A_graph =
        Inr (scenario_A_graph\<lparr>nodes := nodes scenario_A_graph @ ns,
                               edges := edges scenario_A_graph @ es\<rparr>)"
    by blast
  from a en have "nodes scenario_A_graph = ns" "edges scenario_A_graph = es"
    by (metis append_Nil Graph.select_convs(3,4) Graph.surjective Graph.update_convs(3,4))+
  with b have "classify scenario_A_graph =
     Inr (scenario_A_graph
            \<lparr>nodes := nodes scenario_A_graph @ nodes scenario_A_graph,
             edges := edges scenario_A_graph @ edges scenario_A_graph\<rparr>)"
    by simp
  with c s run show ?thesis
    by blast
qed

end
